theory Spec2Isabelle
  imports Complex_Main
begin

section \<open>Numbers, vectors and errors\<close>

text \<open>
  The simulation of \<^verbatim>\<open>nidanidewodawode.py\<close> computes with Python floats and numpy
  arrays of two floats. A float is modelled by the real number it is (infinities and NaN are
  not modelled); an array of two floats is a pair. Where Python would raise, or numpy would
  leave the reals (a division by zero gives \<^verbatim>\<open>inf\<close> or \<^verbatim>\<open>nan\<close> with a warning), the
  model returns an error value.

  Three comparisons of the program decide what the agents see and do on values computed just
  before: the threat level against the two thresholds, the total power against 10, and the
  distance against the detection radius. What these computations yield is the business of the
  float arithmetic of the interpreter and of numpy, which is no part of the source: the model
  takes it as the parameter \<open>ar\<close> (see the section on float arithmetic), so that its statements
  hold of the program whatever the rounding does. The movement, the decay and the policies are
  computed in the reals.
\<close>

datatype error =
    ZeroDivisionError    \<comment> \<open>Python: float division by zero\<close>
  | ValueError           \<comment> \<open>Python: \<^verbatim>\<open>min\<close> of an empty sequence\<close>
  | DivideByZero         \<comment> \<open>numpy: array division by zero, mean of nothing\<close>

type_synonym vec2 = "real \<times> real"

definition zeros2 :: vec2 where
  "zeros2 = (0, 0)"

definition vadd :: "vec2 \<Rightarrow> vec2 \<Rightarrow> vec2" where
  "vadd a b = (fst a + fst b, snd a + snd b)"

definition vsub :: "vec2 \<Rightarrow> vec2 \<Rightarrow> vec2" where
  "vsub a b = (fst a - fst b, snd a - snd b)"

definition vscale :: "vec2 \<Rightarrow> real \<Rightarrow> vec2" where
  "vscale a k = (fst a * k, snd a * k)"

definition vdiv :: "vec2 \<Rightarrow> real \<Rightarrow> error + vec2" where
  "vdiv a d = (if d = 0 then Inl DivideByZero else Inr (fst a / d, snd a / d))"

definition linalg_norm :: "vec2 \<Rightarrow> real" where
  "linalg_norm a = sqrt ((fst a)\<^sup>2 + (snd a)\<^sup>2)"

definition clip :: "vec2 \<Rightarrow> real \<Rightarrow> real \<Rightarrow> vec2" where
  "clip a lo hi = (min (max (fst a) lo) hi, min (max (snd a) lo) hi)"

fun vsum :: "vec2 list \<Rightarrow> vec2" where
  "vsum [] = (0, 0)"
| "vsum (p # ps) = vadd p (vsum ps)"

definition mean_axis0 :: "vec2 list \<Rightarrow> error + vec2" where
  "mean_axis0 ps = vdiv (vsum ps) (real (length ps))"

section \<open>Float arithmetic\<close>

text \<open>
  The operations whose rounding the model keeps track of: the float a decimal literal denotes,
  Python's \<^verbatim>\<open>sum\<close> of floats, the quotient and the product of two floats, the difference
  of two arrays and \<^verbatim>\<open>np.linalg.norm\<close>. The literals \<^verbatim>\<open>1.0\<close> and \<^verbatim>\<open>3.0\<close> and the
  integer \<^verbatim>\<open>10\<close> are floats themselves and stand for themselves; \<^verbatim>\<open>1.4\<close> is not.
\<close>

record arith =
  lit :: "real \<Rightarrow> real"
  fsum :: "real list \<Rightarrow> real"
  fdiv :: "real \<Rightarrow> real \<Rightarrow> real"
  fmul :: "real \<Rightarrow> real \<Rightarrow> real"
  fsub2 :: "vec2 \<Rightarrow> vec2 \<Rightarrow> vec2"
  fnorm :: "vec2 \<Rightarrow> real"

text \<open>Arithmetic without rounding.\<close>

definition exact :: arith where
  "exact = \<lparr>lit = (\<lambda>x. x), fsum = sum_list, fdiv = (\<lambda>x y. x / y), fmul = (\<lambda>x y. x * y),
             fsub2 = vsub, fnorm = linalg_norm\<rparr>"

text \<open>
  IEEE 754 binary64, the float of Python and numpy: a real is rounded to the nearest multiple
  of the unit in its last place, \<open>2\<close> to the power of its binary exponent less 52, a tie going
  to the even multiple. Overflow and subnormal numbers are left out: the exponent is not
  bounded. Every operation rounds its exact result; \<^verbatim>\<open>sum\<close> adds from the left, starting
  from 0; the norm is the root of the sum of the squares.
\<close>

definition round_half_even :: "real \<Rightarrow> int" where
  "round_half_even y =
     (let f = \<lfloor>y\<rfloor>; d = y - of_int f
      in if d < 1 / 2 then f else if 1 / 2 < d then f + 1 else if even f then f else f + 1)"

definition fl :: "real \<Rightarrow> real" where
  "fl x =
     (if x = 0 then 0
      else (let u = 2 powi (\<lfloor>log 2 \<bar>x\<bar>\<rfloor> - 52)
            in of_int (round_half_even (x / u)) * u))"

definition ieee :: arith where
  "ieee = \<lparr>lit = fl,
            fsum = foldl (\<lambda>s x. fl (s + x)) 0,
            fdiv = (\<lambda>x y. fl (x / y)),
            fmul = (\<lambda>x y. fl (x * y)),
            fsub2 = (\<lambda>p q. (fl (fst p - fst q), fl (snd p - snd q))),
            fnorm = (\<lambda>v. fl (sqrt (fl (fl (fst v * fst v) + fl (snd v * snd v)))))\<rparr>"

section \<open>The random source\<close>

text \<open>
  The process-global generator of numpy is an explicit state: the unit floats it will hand out,
  in order (numpy takes them from \<open>[0, 1)\<close>; the statements that need the range assume it),
  and the numbers from which \<^verbatim>\<open>choice\<close> will take its indices, reduced modulo the length of
  the list chosen from. A draw returns the head and the source without it.
  \<^verbatim>\<open>uniform(lo, hi)\<close> scales one unit draw \<open>u\<close> to \<open>lo + (hi - lo) * u\<close>; with a size
  of 2 it makes two draws, first component first. \<^verbatim>\<open>rand(2)\<close> is two unit draws.
\<close>

record rng =
  floats :: "nat \<Rightarrow> real"
  choices :: "nat \<Rightarrow> nat"

definition random_sample :: "rng \<Rightarrow> real \<times> rng" where
  "random_sample g = (floats g 0, g\<lparr>floats := (\<lambda>n. floats g (Suc n))\<rparr>)"

definition uniform :: "real \<Rightarrow> real \<Rightarrow> rng \<Rightarrow> real \<times> rng" where
  "uniform lo hi g = (let (u, g1) = random_sample g in (lo + (hi - lo) * u, g1))"

definition uniform2 :: "real \<Rightarrow> real \<Rightarrow> rng \<Rightarrow> vec2 \<times> rng" where
  "uniform2 lo hi g =
     (let (x, g1) = uniform lo hi g;
          (y, g2) = uniform lo hi g1
      in ((x, y), g2))"

definition rand2 :: "rng \<Rightarrow> vec2 \<times> rng" where
  "rand2 g =
     (let (x, g1) = random_sample g;
          (y, g2) = random_sample g1
      in ((x, y), g2))"

definition choice :: "'a list \<Rightarrow> rng \<Rightarrow> 'a \<times> rng" where
  "choice xs g =
     (xs ! (choices g 0 mod length xs), g\<lparr>choices := (\<lambda>n. choices g (Suc n))\<rparr>)"

section \<open>StrategicAgent\<close>

definition chaos_factor :: real where
  "chaos_factor = 0.3"

record agent =
  agent_id :: int
  agent_power :: real
  position :: vec2
  strategy_type :: string
  status :: string
  vector :: vec2

definition StrategicAgent_init :: "string \<Rightarrow> int \<Rightarrow> rng \<Rightarrow> agent \<times> rng" where
  "StrategicAgent_init strategy i g =
     (let (p, g1) = uniform 0.5 1.5 g;
          (r, g2) = rand2 g1
      in (\<lparr>agent_id = i, agent_power = p, position = vscale r 10,
           strategy_type = strategy, status = ''maneuver'', vector = zeros2\<rparr>, g2))"

definition generate_defensive_pattern :: "rng \<Rightarrow> error + (vec2 \<times> rng)" where
  "generate_defensive_pattern g =
     (let (direction, g1) = uniform2 (- 1) 1 g;
          norm0 = linalg_norm direction;
          norm1 = (if norm0 = 0 then 1 else norm0);
          (random_jitter, g2) = uniform2 (- chaos_factor / 2) (chaos_factor / 2) g1
      in case vdiv direction norm1 of
           Inl e \<Rightarrow> Inl e
         | Inr d \<Rightarrow> Inr (vadd d random_jitter, g2))"

text \<open>\<^verbatim>\<open>min(opponents, key=lambda op: op.power)\<close>: the first opponent of least power.\<close>

fun min_scan :: "agent \<Rightarrow> agent list \<Rightarrow> agent" where
  "min_scan m [] = m"
| "min_scan m (x # xs) = min_scan (if agent_power x < agent_power m then x else m) xs"

definition min_by_power :: "agent list \<Rightarrow> error + agent" where
  "min_by_power ops = (case ops of [] \<Rightarrow> Inl ValueError | x # xs \<Rightarrow> Inr (min_scan x xs))"

definition calculate_best_attack_vector ::
  "agent \<Rightarrow> agent list \<Rightarrow> rng \<Rightarrow> error + (vec2 \<times> rng)" where
  "calculate_best_attack_vector self opponents g =
     (if opponents = [] then generate_defensive_pattern g
      else case min_by_power opponents of
             Inl e \<Rightarrow> Inl e
           | Inr weakest \<Rightarrow>
               (let direction = vsub (position weakest) (position self);
                    norm0 = linalg_norm direction;
                    norm1 = (if norm0 = 0 then 1 else norm0);
                    (random_jitter, g1) = uniform2 (- chaos_factor) chaos_factor g
                in case vdiv direction norm1 of
                     Inl e \<Rightarrow> Inl e
                   | Inr d \<Rightarrow> Inr (vadd d random_jitter, g1)))"

definition find_safest_escape_route ::
  "agent \<Rightarrow> agent list \<Rightarrow> rng \<Rightarrow> error + (vec2 \<times> rng)" where
  "find_safest_escape_route self opponents g =
     (if opponents = [] then generate_defensive_pattern g
      else case mean_axis0 (map position opponents) of
             Inl e \<Rightarrow> Inl e
           | Inr threat_center \<Rightarrow>
               (let direction = vsub (position self) threat_center;
                    norm0 = linalg_norm direction;
                    norm1 = (if norm0 = 0 then 1 else norm0);
                    (random_jitter, g1) = uniform2 (- chaos_factor) chaos_factor g
                in case vdiv direction norm1 of
                     Inl e \<Rightarrow> Inl e
                   | Inr d \<Rightarrow> Inr (vadd d random_jitter, g1)))"

text \<open>
  \<^verbatim>\<open>decide\<close> reads the module's global \<^verbatim>\<open>aggression_threshold\<close> when it is called: the
  model takes it as the parameter \<open>aggression_threshold\<close>. Each branch assigns
  \<^verbatim>\<open>self.status\<close>, then \<^verbatim>\<open>self.vector\<close> from the policy of the branch (\<open>set_decision\<close>);
  the pair \<^verbatim>\<open>decide\<close> returns is the \<open>status\<close> and \<open>vector\<close> of the agent returned here.
  The quotient of two Python floats raises \<^verbatim>\<open>ZeroDivisionError\<close> on a zero divisor.
\<close>

definition set_decision :: "agent \<Rightarrow> string \<Rightarrow> error + (vec2 \<times> rng) \<Rightarrow> error + (agent \<times> rng)" where
  "set_decision self s r =
     (case r of
        Inl e \<Rightarrow> Inl e
      | Inr (v, g1) \<Rightarrow> Inr (self\<lparr>status := s, vector := v\<rparr>, g1))"

definition decide ::
  "arith \<Rightarrow> real \<Rightarrow> agent \<Rightarrow> agent list \<Rightarrow> rng \<Rightarrow> error + (agent \<times> rng)" where
  "decide ar aggression_threshold self opponents g =
     (if opponents \<noteq> [] then
        (if agent_power self = 0 then Inl ZeroDivisionError
         else
           (let threat_level =
                  fdiv ar (fsum ar (map agent_power opponents)) (agent_power self)
            in if threat_level < fmul ar 1.0 aggression_threshold then
                 set_decision self ''attack''
                   (calculate_best_attack_vector (self\<lparr>status := ''attack''\<rparr>) opponents g)
               else if fmul ar 1.0 aggression_threshold \<le> threat_level
                       \<and> threat_level \<le> fmul ar (lit ar 1.4) aggression_threshold then
                 set_decision self ''maneuver'' (generate_defensive_pattern g)
               else
                 set_decision self ''retreat''
                   (find_safest_escape_route (self\<lparr>status := ''retreat''\<rparr>) opponents g)))
      else set_decision self ''maneuver'' (generate_defensive_pattern g))"

section \<open>Battlefield\<close>

record battlefield =
  agents :: "agent list"
  time_step_count :: int

fun deploy_loop :: "int list \<Rightarrow> agent list \<Rightarrow> rng \<Rightarrow> agent list \<times> rng" where
  "deploy_loop [] acc g = (acc, g)"
| "deploy_loop (i # is) acc g =
     (let (strategy, g1) = choice [''active'', ''passive''] g;
          (a, g2) = StrategicAgent_init strategy i g1
      in deploy_loop is (acc @ [a]) g2)"

text \<open>\<^verbatim>\<open>range(num_agents)\<close> is the list \<open>[0..num_agents - 1]\<close>, empty when \<open>num_agents \<le> 0\<close>.\<close>

definition deploy_forces :: "int \<Rightarrow> rng \<Rightarrow> agent list \<times> rng" where
  "deploy_forces num_agents g = deploy_loop [0..num_agents - 1] [] g"

text \<open>
  The constructor has no check of its argument and raises nothing; its result is written in the
  same result type as the operations that can raise.
\<close>

definition Battlefield_init :: "int \<Rightarrow> rng \<Rightarrow> error + (battlefield \<times> rng)" where
  "Battlefield_init num_agents g =
     (let (ags, g1) = deploy_forces num_agents g
      in Inr (\<lparr>agents = ags, time_step_count = 0\<rparr>, g1))"

definition detect_in_radius :: "arith \<Rightarrow> agent list \<Rightarrow> agent \<Rightarrow> real \<Rightarrow> agent list" where
  "detect_in_radius ar ags a radius =
     filter (\<lambda>other. agent_id other \<noteq> agent_id a
                    \<and> fnorm ar (fsub2 ar (position other) (position a)) < radius) ags"

definition execute_action :: "agent \<Rightarrow> vec2 \<Rightarrow> rng \<Rightarrow> agent \<times> rng" where
  "execute_action a v g =
     (let speed_factor = (if status a = ''attack'' then 0.35
                          else if status a = ''retreat'' then 0.3
                          else 0.25);
          (chaotic_movement, g1) = uniform2 (- 0.05) 0.05 g;
          moved = vadd (position a) (vadd (vscale v speed_factor) chaotic_movement)
      in (a\<lparr>position := clip moved 0 10\<rparr>, g1))"

definition update_power_dynamics :: "agent \<Rightarrow> agent" where
  "update_power_dynamics a =
     (let decay = (if status a = ''attack'' then 0.02
                   else if status a = ''retreat'' then 0.015
                   else 0.005)
      in a\<lparr>agent_power := max 0.1 (agent_power a - decay)\<rparr>)"

definition rebalance_strategic_equilibrium :: "arith \<Rightarrow> agent list \<Rightarrow> agent list" where
  "rebalance_strategic_equilibrium ar ags =
     (let total_power = fsum ar (map agent_power ags)
      in if total_power < 10 then map (\<lambda>a. a\<lparr>agent_power := agent_power a + 0.03\<rparr>) ags
         else ags)"

text \<open>
  The body of the loop of \<^verbatim>\<open>time_step\<close> for one agent. \<open>ags\<close> is the population as it
  stands when the agent's turn comes: the agents before it already moved and decayed.
\<close>

definition agent_turn ::
  "arith \<Rightarrow> real \<Rightarrow> agent list \<Rightarrow> agent \<Rightarrow> rng \<Rightarrow> error + (agent \<times> rng)" where
  "agent_turn ar aggression_threshold ags a g =
     (let visible_foes = detect_in_radius ar ags a 3.0
      in case decide ar aggression_threshold a visible_foes g of
           Inl e \<Rightarrow> Inl e
         | Inr (a1, g1) \<Rightarrow>
             (let (a2, g2) = execute_action a1 (vector a1) g1
              in Inr (update_power_dynamics a2, g2)))"

text \<open>
  \<^verbatim>\<open>for agent in self.agents\<close> mutates the agents in place, in list order: \<open>done\<close> are the
  agents already updated, the second list the ones still to come.
\<close>

fun agents_loop ::
  "arith \<Rightarrow> real \<Rightarrow> agent list \<Rightarrow> agent list \<Rightarrow> rng \<Rightarrow> error + (agent list \<times> rng)" where
  "agents_loop ar aggression_threshold done [] g = Inr (done, g)"
| "agents_loop ar aggression_threshold done (a # rest) g =
     (case agent_turn ar aggression_threshold (done @ a # rest) a g of
        Inl e \<Rightarrow> Inl e
      | Inr (a1, g1) \<Rightarrow> agents_loop ar aggression_threshold (done @ [a1]) rest g1)"

definition time_step ::
  "arith \<Rightarrow> real \<Rightarrow> battlefield \<Rightarrow> rng \<Rightarrow> error + (battlefield \<times> rng)" where
  "time_step ar aggression_threshold bf g =
     (case agents_loop ar aggression_threshold [] (agents bf) g of
        Inl e \<Rightarrow> Inl e
      | Inr (ags, g1) \<Rightarrow>
          Inr (\<lparr>agents = rebalance_strategic_equilibrium ar ags,
                time_step_count = time_step_count bf + 1\<rparr>, g1))"

text \<open>
  The animation calls \<^verbatim>\<open>time_step\<close> once per frame, and the slider may change the
  threshold between two frames: a run is the list of thresholds of its frames, and its
  trajectory the list of the battlefields after each tick.
\<close>

fun run ::
  "arith \<Rightarrow> real list \<Rightarrow> battlefield \<Rightarrow> rng \<Rightarrow> error + (battlefield list \<times> rng)" where
  "run ar [] bf g = Inr ([], g)"
| "run ar (t # ts) bf g =
     (case time_step ar t bf g of
        Inl e \<Rightarrow> Inl e
      | Inr (bf1, g1) \<Rightarrow>
          (case run ar ts bf1 g1 of
             Inl e \<Rightarrow> Inl e
           | Inr (traj, g2) \<Rightarrow> Inr (bf1 # traj, g2)))"

section \<open>Predicates of the statements and example states\<close>

definition in_arena :: "vec2 \<Rightarrow> bool" where
  "in_arena p \<longleftrightarrow> 0 \<le> fst p \<and> fst p \<le> 10 \<and> 0 \<le> snd p \<and> snd p \<le> 10"

text \<open>\<open>turn_of ar t a a1\<close>: some turn of agent \<open>a\<close> under the threshold \<open>t\<close> ends in \<open>a1\<close>.\<close>

definition turn_of :: "arith \<Rightarrow> real \<Rightarrow> agent \<Rightarrow> agent \<Rightarrow> bool" where
  "turn_of ar t a a1 \<longleftrightarrow> (\<exists>ags g g1. agent_turn ar t ags a g = Inr (a1, g1))"

text \<open>A random source whose every unit draw is one half: every uniform draw is the midpoint.\<close>

definition rng_half :: rng where
  "rng_half = \<lparr>floats = (\<lambda>_. 0.5), choices = (\<lambda>_. 0)\<rparr>"

text \<open>
  The scenario of two agents: A of power 1.0 at (0, 0) and B of power 0.4 at (1, 0), and what
  one tick under the threshold 1.0 and \<open>rng_half\<close> makes of them.
\<close>

definition agent_A :: agent where
  "agent_A = \<lparr>agent_id = 0, agent_power = 1.0, position = (0, 0),
              strategy_type = ''active'', status = ''maneuver'', vector = zeros2\<rparr>"

definition agent_B :: agent where
  "agent_B = \<lparr>agent_id = 1, agent_power = 0.4, position = (1, 0),
              strategy_type = ''passive'', status = ''maneuver'', vector = zeros2\<rparr>"

definition duel :: battlefield where
  "duel = \<lparr>agents = [agent_A, agent_B], time_step_count = 0\<rparr>"

definition agent_A_moved :: agent where
  "agent_A_moved = \<lparr>agent_id = 0, agent_power = 0.98, position = (0.35, 0),
              strategy_type = ''active'', status = ''attack'', vector = (1, 0)\<rparr>"

definition agent_B_moved :: agent where
  "agent_B_moved = \<lparr>agent_id = 1, agent_power = 0.385, position = (1.3, 0),
              strategy_type = ''passive'', status = ''retreat'', vector = (1, 0)\<rparr>"

definition duel_after :: battlefield where
  "duel_after =
     \<lparr>agents = [agent_A_moved\<lparr>agent_power := 1.01\<rparr>, agent_B_moved\<lparr>agent_power := 0.415\<rparr>],
      time_step_count = 1\<rparr>"


definition agent_D :: agent where
  "agent_D = \<lparr>agent_id = 3, agent_power = 1.4, position = (3, 0),
              strategy_type = ''active'', status = ''maneuver'', vector = zeros2\<rparr>"

text \<open>The battlefield without agents, and a random source whose every unit draw is 0.75.\<close>

definition no_agents :: battlefield where
  "no_agents = \<lparr>agents = [], time_step_count = 0\<rparr>"


text \<open>An agent as the constructor leaves it, and a random source of unit draws.\<close>

definition fresh_agent :: "agent \<Rightarrow> bool" where
  "fresh_agent a \<longleftrightarrow>
     0.5 \<le> agent_power a \<and> agent_power a \<le> 1.5 \<and> in_arena (position a)
     \<and> status a = ''maneuver'' \<and> vector a = zeros2"

definition unit_draws :: "rng \<Rightarrow> bool" where
  "unit_draws g \<longleftrightarrow> (\<forall>i. 0 \<le> floats g i \<and> floats g i \<le> 1)"

text \<open>
  Two random sources agree on their next \<open>k\<close> floats; two results are the same error, or the
  same value with sources left that agree on their next \<open>k\<close> floats.
\<close>

definition agree :: "nat \<Rightarrow> rng \<Rightarrow> rng \<Rightarrow> bool" where
  "agree k g1 g2 \<longleftrightarrow> (\<forall>i<k. floats g1 i = floats g2 i)"

definition same_outcome :: "nat \<Rightarrow> error + ('a \<times> rng) \<Rightarrow> error + ('a \<times> rng) \<Rightarrow> bool" where
  "same_outcome k r1 r2 \<longleftrightarrow>
     (case r1 of
        Inl e1 \<Rightarrow> r2 = Inl e1
      | Inr (x1, h1) \<Rightarrow>
          (case r2 of Inl e2 \<Rightarrow> False | Inr (x2, h2) \<Rightarrow> x1 = x2 \<and> agree k h1 h2))"

text \<open>A random source that hands out one half twelve times, and 0.75 from then on.\<close>

definition rng_half_then_high :: rng where
  "rng_half_then_high = \<lparr>floats = (\<lambda>n. if n < 12 then 0.5 else 0.75), choices = (\<lambda>_. 1)\<rparr>"

text \<open>
  The three numbers \<open>decide\<close> compares, as the float arithmetic computes them: the threat
  level and the two thresholds.
\<close>

definition computed_threat :: "arith \<Rightarrow> agent \<Rightarrow> agent list \<Rightarrow> real" where
  "computed_threat ar self opponents =
     fdiv ar (fsum ar (map agent_power opponents)) (agent_power self)"

definition lower_threshold :: "arith \<Rightarrow> real \<Rightarrow> real" where
  "lower_threshold ar t = fmul ar 1.0 t"

definition upper_threshold :: "arith \<Rightarrow> real \<Rightarrow> real" where
  "upper_threshold ar t = fmul ar (lit ar 1.4) t"

text \<open>
  An agent of power 0.625 and its rival of power 1.3125: their threat ratio 2.1 is 1.4 times
  the threshold 1.5.
\<close>

definition agent_E :: agent where
  "agent_E = \<lparr>agent_id = 0, agent_power = 0.625, position = (1, 0),
              strategy_type = ''active'', status = ''maneuver'', vector = zeros2\<rparr>"

definition agent_F :: agent where
  "agent_F = \<lparr>agent_id = 1, agent_power = 1.3125, position = (0, 0),
              strategy_type = ''passive'', status = ''maneuver'', vector = zeros2\<rparr>"

text \<open>
  Two agents of the powers 5.0 and 4.999999999999999, which is the double next below 5.0.
\<close>

definition agent_P :: agent where
  "agent_P = \<lparr>agent_id = 0, agent_power = 5, position = (1, 1),
              strategy_type = ''active'', status = ''maneuver'', vector = zeros2\<rparr>"

definition agent_Q :: agent where
  "agent_Q = \<lparr>agent_id = 1, agent_power = 5 - 1 / 2 ^ 50, position = (9, 9),
              strategy_type = ''passive'', status = ''maneuver'', vector = zeros2\<rparr>"




section \<open>The vector policies and one agent's turn\<close>

lemma uniform2_explicit:
  "uniform2 lo hi g =
     ((lo + (hi - lo) * floats g 0, lo + (hi - lo) * floats g 1),
      g\<lparr>floats := (\<lambda>n. floats g (Suc (Suc n)))\<rparr>)"
  by (simp add: uniform2_def uniform_def random_sample_def)


lemma generate_defensive_pattern_ok: "\<exists>v g1. generate_defensive_pattern g = Inr (v, g1)"
  by (simp add: generate_defensive_pattern_def uniform2_explicit vdiv_def Let_def)

lemma min_by_power_ok: "ops \<noteq> [] \<Longrightarrow> \<exists>w. min_by_power ops = Inr w"
  by (cases ops) (simp_all add: min_by_power_def)

lemma mean_axis0_ok: "ps \<noteq> [] \<Longrightarrow> \<exists>c. mean_axis0 ps = Inr c"
  by (simp add: mean_axis0_def vdiv_def)

lemma calculate_best_attack_vector_ok:
  "\<exists>v g1. calculate_best_attack_vector self ops g = Inr (v, g1)"
proof (cases "ops = []")
  case True
  then show ?thesis
    using generate_defensive_pattern_ok [of g] by (simp add: calculate_best_attack_vector_def)
next
  case False
  then obtain w where "min_by_power ops = Inr w"
    using min_by_power_ok by blast
  with False show ?thesis
    by (simp add: calculate_best_attack_vector_def uniform2_explicit vdiv_def Let_def)
qed

lemma find_safest_escape_route_ok:
  "\<exists>v g1. find_safest_escape_route self ops g = Inr (v, g1)"
proof (cases "ops = []")
  case True
  then show ?thesis
    using generate_defensive_pattern_ok [of g] by (simp add: find_safest_escape_route_def)
next
  case False
  then obtain c where "mean_axis0 (map position ops) = Inr c"
    using mean_axis0_ok [of "map position ops"] by auto
  with False show ?thesis
    by (simp add: find_safest_escape_route_def uniform2_explicit vdiv_def Let_def)
qed

lemma set_decision_Inr:
  "set_decision a s r = Inr (a1, g1) \<longleftrightarrow> (\<exists>v. r = Inr (v, g1) \<and> a1 = a\<lparr>status := s, vector := v\<rparr>)"
  by (auto simp add: set_decision_def split: sum.splits)

lemma decide_Inr_fields:
  assumes "decide ar t a ops g = Inr (a1, g1)"
  shows "agent_id a1 = agent_id a \<and> agent_power a1 = agent_power a
         \<and> position a1 = position a \<and> strategy_type a1 = strategy_type a
         \<and> status a1 \<in> {''attack'', ''maneuver'', ''retreat''}"
  using assms
  by (auto simp add: decide_def set_decision_Inr Let_def split: if_splits)

lemma decide_ok:
  assumes "ops = [] \<or> agent_power a \<noteq> 0"
  shows "\<exists>a1 g1. decide ar t a ops g = Inr (a1, g1)"
proof -
  obtain v1 h1 where d: "generate_defensive_pattern g = Inr (v1, h1)"
    using generate_defensive_pattern_ok by blast
  obtain v2 h2 where a: "calculate_best_attack_vector (a\<lparr>status := ''attack''\<rparr>) ops g = Inr (v2, h2)"
    using calculate_best_attack_vector_ok by blast
  obtain v3 h3 where e: "find_safest_escape_route (a\<lparr>status := ''retreat''\<rparr>) ops g = Inr (v3, h3)"
    using find_safest_escape_route_ok by blast
  show ?thesis
    using assms d a e by (auto simp add: decide_def set_decision_def Let_def)
qed

lemma clip_in_arena: "in_arena (clip p 0 10)"
  by (simp add: in_arena_def clip_def)

lemma execute_action_explicit:
  "execute_action a v g =
     (a\<lparr>position := clip (vadd (position a)
         (vadd (vscale v (if status a = ''attack'' then 0.35
                          else if status a = ''retreat'' then 0.3 else 0.25))
               (fst (uniform2 (- 0.05) 0.05 g)))) 0 10\<rparr>,
      snd (uniform2 (- 0.05) 0.05 g))"
  by (simp add: execute_action_def Let_def case_prod_beta)

lemma execute_action_fields:
  assumes "execute_action a v g = (a1, g1)"
  shows "agent_id a1 = agent_id a \<and> agent_power a1 = agent_power a
         \<and> strategy_type a1 = strategy_type a \<and> status a1 = status a \<and> vector a1 = vector a
         \<and> in_arena (position a1)"
  using assms unfolding execute_action_explicit by (auto simp add: clip_in_arena)

lemma agent_turn_post:
  assumes "agent_turn ar t ags a g = Inr (a1, g1)"
  shows "agent_id a1 = agent_id a \<and> strategy_type a1 = strategy_type a
         \<and> in_arena (position a1)
         \<and> status a1 \<in> {''attack'', ''maneuver'', ''retreat''}
         \<and> agent_power a1 = max 0.1 (agent_power a -
              (if status a1 = ''attack'' then 0.02 else if status a1 = ''retreat'' then 0.015 else 0.005))"
proof -
  from assms obtain b h where d: "decide ar t a (detect_in_radius ar ags a 3) g = Inr (b, h)"
    and r: "(case execute_action b (vector b) h of (a2, g2) \<Rightarrow> Inr (update_power_dynamics a2, g2)) = (Inr (a1, g1) :: error + agent \<times> rng)"
    by (auto simp add: agent_turn_def Let_def split: sum.splits)
  obtain c k where e: "execute_action b (vector b) h = (c, k)"
    by (cases "execute_action b (vector b) h")
  with r have u: "a1 = update_power_dynamics c" by simp
  from decide_Inr_fields [OF d] execute_action_fields [OF e] show ?thesis
    unfolding u by (simp add: update_power_dynamics_def Let_def)
qed

section \<open>The loop over the agents and the whole tick\<close>

lemma turn_of_post:
  assumes "turn_of ar t a a1"
  shows "agent_id a1 = agent_id a \<and> strategy_type a1 = strategy_type a
         \<and> in_arena (position a1)
         \<and> status a1 \<in> {''attack'', ''maneuver'', ''retreat''}
         \<and> agent_power a1 = max 0.1 (agent_power a -
              (if status a1 = ''attack'' then 0.02 else if status a1 = ''retreat'' then 0.015 else 0.005))"
  using assms agent_turn_post unfolding turn_of_def by blast

lemma agents_loop_turns:
  "agents_loop ar t done rest g = Inr (ags1, g1) \<Longrightarrow>
     \<exists>new. ags1 = done @ new \<and> list_all2 (turn_of ar t) rest new"
proof (induction rest arbitrary: "done" g)
  case Nil
  then show ?case by simp
next
  case (Cons a rest)
  from Cons.prems obtain a1 h where
    turn: "agent_turn ar t (done @ a # rest) a g = Inr (a1, h)" and
    tail: "agents_loop ar t (done @ [a1]) rest h = Inr (ags1, g1)"
    by (auto split: sum.splits)
  from Cons.IH [OF tail] obtain new where
    new: "ags1 = (done @ [a1]) @ new" "list_all2 (turn_of ar t) rest new"
    by blast
  from turn have "turn_of ar t a a1"
    unfolding turn_of_def by blast
  with new have "ags1 = done @ (a1 # new) \<and> list_all2 (turn_of ar t) (a # rest) (a1 # new)"
    by simp
  then show ?case by blast
qed

lemma agents_loop_nth:
  assumes "agents_loop ar t [] ags g = Inr (mid, g1)"
  shows "length mid = length ags \<and> (\<forall>i<length ags. turn_of ar t (ags ! i) (mid ! i))"
proof -
  from agents_loop_turns [OF assms] have "list_all2 (turn_of ar t) ags mid"
    by simp
  then show ?thesis
    by (simp add: list_all2_conv_all_nth)
qed

lemma decide_Inl:
  assumes "decide ar t a ops g = Inl e"
  shows "e = ZeroDivisionError \<and> agent_power a = 0 \<and> ops \<noteq> []"
proof (cases "ops = [] \<or> agent_power a \<noteq> 0")
  case True
  from decide_ok [OF this, of ar t g] assms show ?thesis by auto
next
  case False
  with assms show ?thesis by (simp add: decide_def)
qed

lemma agent_turn_ok:
  assumes "agent_power a \<noteq> 0"
  shows "\<exists>a1 g1. agent_turn ar t ags a g = Inr (a1, g1)"
proof -
  from assms obtain b h where "decide ar t a (detect_in_radius ar ags a 3) g = Inr (b, h)"
    using decide_ok [of "detect_in_radius ar ags a 3" a ar t g] by blast
  then show ?thesis
    by (simp add: agent_turn_def case_prod_beta)
qed

lemma agents_loop_ok:
  "\<forall>a\<in>set rest. agent_power a \<noteq> 0 \<Longrightarrow> \<exists>ags1 g1. agents_loop ar t done rest g = Inr (ags1, g1)"
proof (induction rest arbitrary: "done" g)
  case Nil
  then show ?case by simp
next
  case (Cons a rest)
  then obtain a1 h where "agent_turn ar t (done @ a # rest) a g = Inr (a1, h)"
    using agent_turn_ok [of a ar t "done @ a # rest" g] by auto
  moreover from Cons obtain ags1 g1 where "agents_loop ar t (done @ [a1]) rest h = Inr (ags1, g1)"
    by fastforce
  ultimately show ?case by simp
qed

lemma rebalance_member:
  assumes "a \<in> set (rebalance_strategic_equilibrium ar ags)"
  shows "\<exists>b\<in>set ags. position a = position b \<and> agent_power b \<le> agent_power a"
  using assms by (auto simp add: rebalance_strategic_equilibrium_def Let_def split: if_splits)

lemma time_step_Inr:
  "time_step ar t bf g = Inr (bf1, g1) \<longleftrightarrow>
     (\<exists>mid. agents_loop ar t [] (agents bf) g = Inr (mid, g1)
        \<and> bf1 = \<lparr>agents = rebalance_strategic_equilibrium ar mid,
                  time_step_count = time_step_count bf + 1\<rparr>)"
  by (auto simp add: time_step_def split: sum.splits)

lemma time_step_invariant:
  assumes "time_step ar t bf g = Inr (bf1, g1)"
  shows "\<forall>a\<in>set (agents bf1). 0.1 \<le> agent_power a \<and> in_arena (position a)"
proof
  fix a assume a: "a \<in> set (agents bf1)"
  from assms obtain mid where
    loop: "agents_loop ar t [] (agents bf) g = Inr (mid, g1)" and
    bf1: "agents bf1 = rebalance_strategic_equilibrium ar mid"
    unfolding time_step_Inr by auto
  from a bf1 have "a \<in> set (rebalance_strategic_equilibrium ar mid)"
    by simp
  from rebalance_member [OF this] obtain b where
    b: "b \<in> set mid" "position a = position b" "agent_power b \<le> agent_power a"
    by blast
  from b(1) obtain i where i: "i < length mid" "b = mid ! i"
    by (auto simp add: in_set_conv_nth)
  with agents_loop_nth [OF loop] have "turn_of ar t (agents bf ! i) b"
    by simp
  from turn_of_post [OF this] have "0.1 \<le> agent_power b \<and> in_arena (position b)"
    by simp
  with b show "0.1 \<le> agent_power a \<and> in_arena (position a)"
    by simp
qed

lemma time_step_ok:
  assumes "\<forall>a\<in>set (agents bf). agent_power a \<noteq> 0"
  shows "\<exists>bf1 g1. time_step ar t bf g = Inr (bf1, g1)"
  using agents_loop_ok [OF assms, of ar t "[]" g] by (auto simp add: time_step_def)

section \<open>One tick of the two-agent scenario\<close>

lemma exact_simps:
  "lit exact x = x" "fsum exact xs = sum_list xs" "fdiv exact x y = x / y"
  "fmul exact x y = x * y" "fsub2 exact p q = vsub p q" "fnorm exact p = linalg_norm p"
  by (simp_all add: exact_def)

lemma random_sample_half: "random_sample rng_half = (0.5, rng_half)"
  by (simp add: random_sample_def rng_half_def)

lemma uniform2_half: "uniform2 lo hi rng_half = (((lo + hi) / 2, (lo + hi) / 2), rng_half)"
  by (simp add: uniform2_def uniform_def random_sample_half field_simps)

lemma linalg_norm_axis: "linalg_norm (x, 0) = \<bar>x\<bar>"
  by (simp add: linalg_norm_def)

lemma generate_defensive_pattern_half:
  "generate_defensive_pattern rng_half = Inr ((0, 0), rng_half)"
  by (simp add: generate_defensive_pattern_def uniform2_half linalg_norm_axis vdiv_def vadd_def
      chaos_factor_def)

lemma turn_A:
  "agent_turn exact 1 [agent_A, agent_B] agent_A rng_half = Inr (agent_A_moved, rng_half)"
  by (simp add: agent_turn_def detect_in_radius_def exact_simps agent_A_def agent_B_def vsub_def
      linalg_norm_axis decide_def set_decision_def calculate_best_attack_vector_def
      min_by_power_def uniform2_half chaos_factor_def vdiv_def vadd_def vscale_def
      execute_action_def update_power_dynamics_def clip_def zeros2_def agent_A_moved_def)

lemma turn_B:
  "agent_turn exact 1 [agent_A_moved, agent_B] agent_B rng_half = Inr (agent_B_moved, rng_half)"
  by (simp add: agent_turn_def detect_in_radius_def exact_simps agent_A_moved_def agent_B_def vsub_def
      linalg_norm_axis decide_def set_decision_def find_safest_escape_route_def
      mean_axis0_def uniform2_half chaos_factor_def vdiv_def vadd_def vscale_def
      execute_action_def update_power_dynamics_def clip_def zeros2_def agent_B_moved_def)

lemma agents_loop_duel:
  "agents_loop exact 1 [] (agents duel) rng_half = Inr ([agent_A_moved, agent_B_moved], rng_half)"
  by (simp add: duel_def turn_A turn_B)

lemma rebalance_duel:
  "rebalance_strategic_equilibrium exact [agent_A_moved, agent_B_moved] = agents duel_after"
  by (simp add: rebalance_strategic_equilibrium_def exact_simps duel_after_def
      agent_A_moved_def agent_B_moved_def)

lemma time_step_duel: "time_step exact 1 duel rng_half = Inr (duel_after, rng_half)"
  by (simp add: time_step_def agents_loop_duel rebalance_duel) (simp add: duel_def duel_after_def)

section \<open>The invariant of a tick\<close>

text \<open>
  Claim C1. After every call of \<open>time_step\<close> that returns, every agent has a power of at
  least 0.1 and a position inside the arena \<open>[0, 10] \<times> [0, 10]\<close>, whatever the state before
  the tick, the threshold, the stances and the random draws, and whether or not the equilibrium
  correction fired. The call returns whenever no agent has the power 0 before it, which the
  floor itself guarantees from the second tick on.
\<close>

theorem power_floor_and_arena_invariant:
  "(\<forall>bf1 g1. time_step ar t bf g = Inr (bf1, g1) \<longrightarrow>
      (\<forall>a\<in>set (agents bf1). 0.1 \<le> agent_power a \<and> in_arena (position a)))
   \<and> ((\<forall>a\<in>set (agents bf). agent_power a \<noteq> 0) \<longrightarrow>
      (\<exists>bf1 g1. time_step ar t bf g = Inr (bf1, g1)))"
  using time_step_invariant time_step_ok by blast

theorem power_floor_and_arena_invariant_witness:
  "time_step exact 1 duel rng_half = Inr (duel_after, rng_half)
   \<and> list_all (\<lambda>a. agent_power a \<noteq> 0) (agents duel)
   \<and> list_all (\<lambda>a. 0.1 \<le> agent_power a \<and> in_arena (position a)) (agents duel_after)"
proof -
  have step: "time_step exact 1 duel rng_half = Inr (duel_after, rng_half)"
    by (rule time_step_duel)
  have pre: "list_all (\<lambda>a. agent_power a \<noteq> 0) (agents duel)"
    by (simp add: duel_def agent_A_def agent_B_def)
  from power_floor_and_arena_invariant [of exact 1 duel rng_half] step
  have "\<forall>a\<in>set (agents duel_after). 0.1 \<le> agent_power a \<and> in_arena (position a)"
    by blast
  then have "list_all (\<lambda>a. 0.1 \<le> agent_power a \<and> in_arena (position a)) (agents duel_after)"
    by (simp add: list_all_iff)
  with step pre show ?thesis by blast
qed

section \<open>Rounding to binary64\<close>

text \<open>
  \<open>fl\<close> at a real whose binary exponent is known, and the roundings the examples need.
\<close>

lemma floor_log2_eq:
  assumes "2 powi e \<le> x" and "x < 2 powi (e + 1)"
  shows "\<lfloor>log 2 x\<rfloor> = e"
proof -
  have "(0::real) < 2 powi e"
    by simp
  with assms(1) have pos: "0 < x"
    by linarith
  have lo: "(2::real) powr real_of_int e = 2 powi e"
    by (rule powr_real_of_int') simp_all
  have hi: "(2::real) powr real_of_int (e + 1) = 2 powi (e + 1)"
    by (rule powr_real_of_int') simp_all
  have "(\<lfloor>log 2 x\<rfloor> = e) =
      (2 powr real_of_int e \<le> x \<and> x < 2 powr real_of_int (e + 1))"
    using pos by (rule floor_log_eq_powr_iff) simp
  with assms show ?thesis
    unfolding lo hi by simp
qed

lemma fl_eval:
  assumes "2 powi e \<le> \<bar>x\<bar>" and "\<bar>x\<bar> < 2 powi (e + 1)"
  shows "fl x = of_int (round_half_even (x / 2 powi (e - 52))) * 2 powi (e - 52)"
proof -
  have "(0::real) < 2 powi e"
    by simp
  with assms(1) have "0 < \<bar>x\<bar>"
    by linarith
  then have "x \<noteq> 0"
    by simp
  moreover have "\<lfloor>log 2 \<bar>x\<bar>\<rfloor> = e"
    using assms by (rule floor_log2_eq)
  ultimately show ?thesis
    by (simp add: fl_def Let_def)
qed

section \<open>The stance chosen by \<open>decide\<close>\<close>

text \<open>The roundings of the boundary case: 7/5 is 1.4, 21/10 is 2.1, 21/16 is 1.3125.\<close>

lemma fl_7_5: "fl (7 / 5) = 6305039478318694 / 2 ^ 52"
  by (subst fl_eval [of 0]) (simp_all add: round_half_even_def power_int_minus)

lemma fl_21_10: "fl (21 / 10) = 4728779608739021 / 2 ^ 51"
  by (subst fl_eval [of 1]) (simp_all add: round_half_even_def power_int_minus)

lemma fl_3_2: "fl (3 / 2) = 3 / 2"
  by (subst fl_eval [of 0]) (simp_all add: round_half_even_def power_int_minus)

lemma fl_21_16: "fl (21 / 16) = 21 / 16"
  by (subst fl_eval [of 0]) (simp_all add: round_half_even_def power_int_minus)

lemma fl_upper: "fl (6305039478318694 / 2 ^ 52 * (3 / 2)) = 4728779608739020 / 2 ^ 51"
  by (subst fl_eval [of 1]) (simp_all add: round_half_even_def power_int_minus)

lemma computed_threat_EF: "computed_threat ieee agent_E [agent_F] = 4728779608739021 / 2 ^ 51"
proof -
  have "computed_threat ieee agent_E [agent_F] = fl (fl (21 / 16) / (5 / 8))"
    by (simp add: computed_threat_def ieee_def agent_E_def agent_F_def)
  also have "\<dots> = fl (21 / 10)"
    by (simp add: fl_21_16)
  finally show ?thesis
    by (simp only: fl_21_10)
qed

lemma lower_threshold_ieee: "lower_threshold ieee (3 / 2) = 3 / 2"
  by (simp add: lower_threshold_def ieee_def fl_3_2)

lemma upper_threshold_ieee: "upper_threshold ieee (3 / 2) = 4728779608739020 / 2 ^ 51"
proof -
  have "upper_threshold ieee (3 / 2) = fl (fl (7 / 5) * (3 / 2))"
    by (simp add: upper_threshold_def ieee_def)
  then show ?thesis
    by (simp only: fl_7_5 fl_upper)
qed

lemma decide_bands:
  assumes "opponents \<noteq> []" and "agent_power self \<noteq> 0"
  shows "decide ar t self opponents g =
     (if computed_threat ar self opponents < lower_threshold ar t then
        set_decision self ''attack''
          (calculate_best_attack_vector (self\<lparr>status := ''attack''\<rparr>) opponents g)
      else if lower_threshold ar t \<le> computed_threat ar self opponents
              \<and> computed_threat ar self opponents \<le> upper_threshold ar t then
        set_decision self ''maneuver'' (generate_defensive_pattern g)
      else
        set_decision self ''retreat''
          (find_safest_escape_route (self\<lparr>status := ''retreat''\<rparr>) opponents g))"
  using assms
  by (simp add: decide_def computed_threat_def lower_threshold_def upper_threshold_def Let_def)

lemma escape_E:
  "find_safest_escape_route (agent_E\<lparr>status := ''retreat''\<rparr>) [agent_F] rng_half =
     Inr ((1, 0), rng_half)"
  by (simp add: find_safest_escape_route_def mean_axis0_def vdiv_def vadd_def vsub_def
      agent_E_def agent_F_def linalg_norm_axis uniform2_half chaos_factor_def)

lemma decide_EF:
  "decide ieee (3 / 2) agent_E [agent_F] rng_half =
     Inr (agent_E\<lparr>status := ''retreat'', vector := (1, 0)\<rparr>, rng_half)"
proof -
  have ne: "[agent_F] \<noteq> []" "agent_power agent_E \<noteq> 0"
    by (simp_all add: agent_E_def)
  show ?thesis
    unfolding decide_bands [OF ne] computed_threat_EF lower_threshold_ieee upper_threshold_ieee
    by (simp add: escape_E set_decision_def)
qed

text \<open>
  Claim C2 puts the boundary at the exact product: a threat ratio of exactly \<open>1.4 * t\<close> is to
  give maneuver. The program compares what the float arithmetic computes, and that differs.
  At the threshold 1.5, an agent of power 0.625 sees one rival of power 1.3125: the ratio is
  2.1, which is \<open>1.4 * 1.5\<close>; the float quotient is the double above 2.1, the float product of
  the double of 1.4 with 1.5 is the double below, and the agent retreats.
\<close>

theorem threat_band_boundary_rounds:
  "1.5 \<le> sum_list (map agent_power [agent_F]) / agent_power agent_E
   \<and> sum_list (map agent_power [agent_F]) / agent_power agent_E \<le> 1.4 * 1.5
   \<and> decide ieee 1.5 agent_E [agent_F] rng_half =
       Inr (agent_E\<lparr>status := ''retreat'', vector := (1, 0)\<rparr>, rng_half)"
proof -
  have "decide ieee 1.5 agent_E [agent_F] rng_half =
       Inr (agent_E\<lparr>status := ''retreat'', vector := (1, 0)\<rparr>, rng_half)"
    using decide_EF by simp
  then show ?thesis
    by (simp add: agent_E_def agent_F_def)
qed

text \<open>
  Claim C2, as the code has it. For an agent of a power other than 0 with visible rivals and for
  every threshold \<open>t\<close>, \<open>decide\<close> returns, and the stance it sets is fixed by three numbers as
  the float arithmetic computes them: the threat ratio \<open>r\<close> (the float sum of the rivals'
  powers, divided by the agent's power), the lower threshold \<open>lo\<close> (1.0 times \<open>t\<close>) and the
  upper threshold \<open>hi\<close> (the double of 1.4 times \<open>t\<close>). Below \<open>lo\<close> the stance is attack, from
  \<open>lo\<close> to \<open>hi\<close>, both bounds included, maneuver, and above \<open>hi\<close> retreat (when \<open>r\<close> is not
  below \<open>lo\<close>, which is always so when \<open>lo \<le> hi\<close>).
\<close>

theorem threat_bands:
  assumes "opponents \<noteq> []" and "agent_power self \<noteq> 0"
  shows "\<exists>a1 g1. decide ar t self opponents g = Inr (a1, g1)
     \<and> (computed_threat ar self opponents < lower_threshold ar t
          \<longrightarrow> status a1 = ''attack'')
     \<and> (lower_threshold ar t \<le> computed_threat ar self opponents
          \<and> computed_threat ar self opponents \<le> upper_threshold ar t
          \<longrightarrow> status a1 = ''maneuver'')
     \<and> (lower_threshold ar t \<le> computed_threat ar self opponents
          \<and> upper_threshold ar t < computed_threat ar self opponents
          \<longrightarrow> status a1 = ''retreat'')
     \<and> (lower_threshold ar t \<le> upper_threshold ar t
          \<and> upper_threshold ar t < computed_threat ar self opponents
          \<longrightarrow> status a1 = ''retreat'')"
proof -
  let ?r = "computed_threat ar self opponents"
  let ?lo = "lower_threshold ar t"
  let ?hi = "upper_threshold ar t"
  from assms(2) obtain a1 g1 where d: "decide ar t self opponents g = Inr (a1, g1)"
    using decide_ok [of opponents self ar t g] by auto
  note b = d [unfolded decide_bands [OF assms]]
  have attack: "?r < ?lo \<longrightarrow> status a1 = ''attack''"
    using b by (auto simp add: set_decision_Inr)
  have maneuver: "?lo \<le> ?r \<and> ?r \<le> ?hi \<longrightarrow> status a1 = ''maneuver''"
    using b by (auto simp add: set_decision_Inr)
  have retreat: "?lo \<le> ?r \<and> ?hi < ?r \<longrightarrow> status a1 = ''retreat''"
    using b by (auto simp add: set_decision_Inr)
  have "?lo \<le> ?hi \<and> ?hi < ?r \<longrightarrow> status a1 = ''retreat''"
    using retreat by auto
  with d attack maneuver retreat show ?thesis
    by (intro exI conjI)
qed

theorem threat_bands_witness:
  "[agent_F] \<noteq> [] \<and> agent_power agent_E \<noteq> 0
   \<and> lower_threshold ieee 1.5 \<le> computed_threat ieee agent_E [agent_F]
   \<and> upper_threshold ieee 1.5 < computed_threat ieee agent_E [agent_F]
   \<and> (\<exists>a1 g1. decide ieee 1.5 agent_E [agent_F] rng_half = Inr (a1, g1)
         \<and> status a1 = ''retreat'')"
proof -
  have h1: "[agent_F] \<noteq> []" by simp
  have h2: "agent_power agent_E \<noteq> 0" by (simp add: agent_E_def)
  have lo: "lower_threshold ieee 1.5 \<le> computed_threat ieee agent_E [agent_F]"
    using lower_threshold_ieee computed_threat_EF by simp
  have hi: "upper_threshold ieee 1.5 < computed_threat ieee agent_E [agent_F]"
    using upper_threshold_ieee computed_threat_EF by simp
  from threat_bands [OF h1 h2, of ieee "1.5" rng_half] obtain a1 g1 where
    d: "decide ieee 1.5 agent_E [agent_F] rng_half = Inr (a1, g1)" and
    r: "lower_threshold ieee 1.5 \<le> computed_threat ieee agent_E [agent_F]
          \<and> upper_threshold ieee 1.5 < computed_threat ieee agent_E [agent_F]
          \<longrightarrow> status a1 = ''retreat''"
    by blast
  from r lo hi have "status a1 = ''retreat''"
    by blast
  with d have "\<exists>a1 g1. decide ieee 1.5 agent_E [agent_F] rng_half = Inr (a1, g1)
         \<and> status a1 = ''retreat''"
    by (intro exI conjI)
  with h1 h2 lo hi show ?thesis
    by (intro conjI)
qed

section \<open>Decay and equilibrium correction\<close>

text \<open>
  Claim C3. In the per-agent phase of a tick (the loop of \<open>time_step\<close>, before the equilibrium
  correction), the power of every agent becomes the maximum of 0.1 and its power before the tick
  less the decay of the stance decided in that tick: 0.02 for attack, 0.015 for retreat, 0.005
  for maneuver. So a power that was at least 0.1 does not increase in that phase. When the
  correction does not fire (the float sum of the powers is not below 10), the state after the
  loop is the state after the tick.
\<close>

theorem decay_by_stance:
  assumes "agents_loop ar t [] (agents bf) g = Inr (mid, g1)"
    and "i < length (agents bf)"
  shows "length mid = length (agents bf)
     \<and> status (mid ! i) \<in> {''attack'', ''retreat'', ''maneuver''}
     \<and> (status (mid ! i) = ''attack'' \<longrightarrow>
          agent_power (mid ! i) = max 0.1 (agent_power (agents bf ! i) - 0.02))
     \<and> (status (mid ! i) = ''retreat'' \<longrightarrow>
          agent_power (mid ! i) = max 0.1 (agent_power (agents bf ! i) - 0.015))
     \<and> (status (mid ! i) = ''maneuver'' \<longrightarrow>
          agent_power (mid ! i) = max 0.1 (agent_power (agents bf ! i) - 0.005))
     \<and> (0.1 \<le> agent_power (agents bf ! i) \<longrightarrow>
          agent_power (mid ! i) \<le> agent_power (agents bf ! i))
     \<and> (\<not> fsum ar (map agent_power mid) < 10 \<longrightarrow>
          time_step ar t bf g =
            Inr (\<lparr>agents = mid, time_step_count = time_step_count bf + 1\<rparr>, g1))"
proof -
  from agents_loop_nth [OF assms(1)] assms(2) have
    len: "length mid = length (agents bf)" and turn: "turn_of ar t (agents bf ! i) (mid ! i)"
    by simp_all
  note post = turn_of_post [OF turn]
  from post have st: "status (mid ! i) \<in> {''attack'', ''retreat'', ''maneuver''}"
    by blast
  from post have pw: "agent_power (mid ! i) = max 0.1 (agent_power (agents bf ! i) -
       (if status (mid ! i) = ''attack'' then 0.02
        else if status (mid ! i) = ''retreat'' then 0.015 else 0.005))"
    by blast
  have a: "status (mid ! i) = ''attack'' \<longrightarrow>
          agent_power (mid ! i) = max 0.1 (agent_power (agents bf ! i) - 0.02)"
    using pw by simp
  have r: "status (mid ! i) = ''retreat'' \<longrightarrow>
          agent_power (mid ! i) = max 0.1 (agent_power (agents bf ! i) - 0.015)"
    using pw by simp
  have m: "status (mid ! i) = ''maneuver'' \<longrightarrow>
          agent_power (mid ! i) = max 0.1 (agent_power (agents bf ! i) - 0.005)"
    using pw by simp
  have mono: "0.1 \<le> agent_power (agents bf ! i) \<longrightarrow>
          agent_power (mid ! i) \<le> agent_power (agents bf ! i)"
    using pw by (simp split: if_splits)
  have whole: "\<not> fsum ar (map agent_power mid) < 10 \<longrightarrow>
          time_step ar t bf g =
            Inr (\<lparr>agents = mid, time_step_count = time_step_count bf + 1\<rparr>, g1)"
    using assms(1) by (simp add: time_step_def rebalance_strategic_equilibrium_def)
  from len st a r m mono whole show ?thesis by blast
qed

theorem decay_by_stance_witness:
  "agents_loop exact 1 [] (agents duel) rng_half = Inr ([agent_A_moved, agent_B_moved], rng_half)
   \<and> 0 < length (agents duel)
   \<and> status ([agent_A_moved, agent_B_moved] ! 0) = ''attack''
   \<and> agent_power ([agent_A_moved, agent_B_moved] ! 0) = max 0.1 (agent_power (agents duel ! 0) - 0.02)
   \<and> 0.1 \<le> agent_power (agents duel ! 0)
   \<and> agent_power ([agent_A_moved, agent_B_moved] ! 0) \<le> agent_power (agents duel ! 0)"
proof -
  have loop: "agents_loop exact 1 [] (agents duel) rng_half = Inr ([agent_A_moved, agent_B_moved], rng_half)"
    by (rule agents_loop_duel)
  have i: "0 < length (agents duel)" by (simp add: duel_def)
  have st: "status ([agent_A_moved, agent_B_moved] ! 0) = ''attack''"
    by (simp add: agent_A_moved_def)
  have pre: "0.1 \<le> agent_power (agents duel ! 0)"
    by (simp add: duel_def agent_A_def)
  from decay_by_stance [OF loop i] st pre loop i show ?thesis by blast
qed

text \<open>
  The equilibrium correction, agent by agent.
\<close>

lemma rebalance_below:
  assumes "fsum ar (map agent_power ags) < 10" and "i < length ags"
  shows "rebalance_strategic_equilibrium ar ags ! i =
           (ags ! i)\<lparr>agent_power := agent_power (ags ! i) + 0.03\<rparr>"
  using assms by (simp add: rebalance_strategic_equilibrium_def)

lemma rebalance_length: "length (rebalance_strategic_equilibrium ar ags) = length ags"
  by (simp add: rebalance_strategic_equilibrium_def)

text \<open>The float sum of 5.0 and the double next below it is a tie, which goes to 10.0.\<close>

lemma fl_5: "fl 5 = 5"
  by (subst fl_eval [of 2]) (simp_all add: round_half_even_def power_int_minus)

lemma fl_below_10: "fl (10 - 1 / 2 ^ 50) = 10"
  by (subst fl_eval [of 3]) (simp_all add: round_half_even_def power_int_minus)

lemma fsum_PQ: "fsum ieee (map agent_power [agent_P, agent_Q]) = 10"
proof -
  have "fsum ieee (map agent_power [agent_P, agent_Q]) = fl (fl 5 + (5 - 1 / 2 ^ 50))"
    by (simp add: ieee_def agent_P_def agent_Q_def)
  also have "\<dots> = fl (10 - 1 / 2 ^ 50)"
    by (simp only: fl_5) simp
  finally show ?thesis
    by (simp only: fl_below_10)
qed

text \<open>
  Claim C4 puts the trigger at the sum of the powers. The program compares the float sum with
  10. Two agents of the powers 5.0 and 4.999999999999999 (the double below 5.0) have powers
  that sum to less than 10; their float sum is the double 10.0, and no power changes.
\<close>

theorem equilibrium_trigger_rounds:
  "agent_power agent_P + agent_power agent_Q < 10
   \<and> rebalance_strategic_equilibrium ieee [agent_P, agent_Q] = [agent_P, agent_Q]"
proof -
  have "agent_power agent_P + agent_power agent_Q < 10"
    by (simp add: agent_P_def agent_Q_def)
  moreover have "rebalance_strategic_equilibrium ieee [agent_P, agent_Q] = [agent_P, agent_Q]"
    unfolding rebalance_strategic_equilibrium_def fsum_PQ by simp
  ultimately show ?thesis by (rule conjI)
qed

text \<open>
  Claim C4, as the code has it. A tick is the loop over the agents, then one equilibrium
  correction on the powers the loop left, then the increment of the tick counter: if the float
  sum of those powers, as Python's \<^verbatim>\<open>sum\<close> computes it, is less than 10, every agent's
  power grows by 0.03 and nothing else of the agent changes; otherwise the agents are the ones
  the loop left.
\<close>

theorem equilibrium_correction:
  assumes "time_step ar t bf g = Inr (bf1, g1)"
  shows "\<exists>mid. agents_loop ar t [] (agents bf) g = Inr (mid, g1)
     \<and> length (agents bf1) = length mid
     \<and> (fsum ar (map agent_power mid) < 10 \<longrightarrow>
          (\<forall>i<length mid. agents bf1 ! i =
             (mid ! i)\<lparr>agent_power := agent_power (mid ! i) + 0.03\<rparr>))
     \<and> (\<not> fsum ar (map agent_power mid) < 10 \<longrightarrow> agents bf1 = mid)
     \<and> time_step_count bf1 = time_step_count bf + 1"
proof -
  from assms obtain mid where
    loop: "agents_loop ar t [] (agents bf) g = Inr (mid, g1)" and
    bf1: "bf1 = \<lparr>agents = rebalance_strategic_equilibrium ar mid,
                  time_step_count = time_step_count bf + 1\<rparr>"
    unfolding time_step_Inr by blast
  have len: "length (agents bf1) = length mid"
    by (simp add: bf1 rebalance_length)
  have fired: "fsum ar (map agent_power mid) < 10 \<longrightarrow>
          (\<forall>i<length mid. agents bf1 ! i =
             (mid ! i)\<lparr>agent_power := agent_power (mid ! i) + 0.03\<rparr>)"
    by (simp add: bf1 rebalance_below)
  have idle: "\<not> fsum ar (map agent_power mid) < 10 \<longrightarrow> agents bf1 = mid"
    by (simp add: bf1 rebalance_strategic_equilibrium_def)
  have "time_step_count bf1 = time_step_count bf + 1"
    by (simp add: bf1)
  with loop len fired idle show ?thesis by blast
qed

theorem equilibrium_correction_witness:
  "time_step exact 1 duel rng_half = Inr (duel_after, rng_half)
   \<and> agents_loop exact 1 [] (agents duel) rng_half = Inr ([agent_A_moved, agent_B_moved], rng_half)
   \<and> fsum exact (map agent_power [agent_A_moved, agent_B_moved]) < 10
   \<and> agents duel_after ! 0 = agent_A_moved\<lparr>agent_power := agent_power agent_A_moved + 0.03\<rparr>
   \<and> agents duel_after ! 1 = agent_B_moved\<lparr>agent_power := agent_power agent_B_moved + 0.03\<rparr>
   \<and> time_step_count duel_after = time_step_count duel + 1"
proof -
  have step: "time_step exact 1 duel rng_half = Inr (duel_after, rng_half)"
    by (rule time_step_duel)
  have loop: "agents_loop exact 1 [] (agents duel) rng_half = Inr ([agent_A_moved, agent_B_moved], rng_half)"
    by (rule agents_loop_duel)
  have low: "fsum exact (map agent_power [agent_A_moved, agent_B_moved]) < 10"
    by (simp add: exact_simps agent_A_moved_def agent_B_moved_def)
  from equilibrium_correction [OF step] loop obtain mid where
    mid: "mid = [agent_A_moved, agent_B_moved]" and
    fired: "fsum exact (map agent_power mid) < 10 \<longrightarrow>
          (\<forall>i<length mid. agents duel_after ! i =
             (mid ! i)\<lparr>agent_power := agent_power (mid ! i) + 0.03\<rparr>)" and
    count: "time_step_count duel_after = time_step_count duel + 1"
    by auto
  from fired low have all: "\<forall>i<length mid. agents duel_after ! i =
             (mid ! i)\<lparr>agent_power := agent_power (mid ! i) + 0.03\<rparr>"
    unfolding mid by blast
  have "agents duel_after ! 0 = agent_A_moved\<lparr>agent_power := agent_power agent_A_moved + 0.03\<rparr>"
    using all [rule_format, of 0] by (simp add: mid)
  moreover
  have "agents duel_after ! 1 = agent_B_moved\<lparr>agent_power := agent_power agent_B_moved + 0.03\<rparr>"
    using all [rule_format, of 1] by (simp add: mid)
  ultimately show ?thesis
    using step loop low count by blast
qed

section \<open>No visible rival, no agent\<close>

text \<open>
  Claim C5. With no visible rival, \<open>decide\<close> returns, whatever the agent's power (also 0:
  no threat ratio is computed), its position and the threshold; the stance is maneuver and the
  vector is the one \<open>generate_defensive_pattern\<close> makes from the random source.
\<close>

theorem empty_rival_fallback:
  "\<exists>v g1. generate_defensive_pattern g = Inr (v, g1)
     \<and> decide ar t a [] g = Inr (a\<lparr>status := ''maneuver'', vector := v\<rparr>, g1)"
  using generate_defensive_pattern_ok [of g] by (auto simp add: decide_def set_decision_def)

text \<open>
  Claim C6 says that the construction of a battlefield of zero agents raises an error. It does
  not: the constructor checks nothing, and \<open>Battlefield_init 0\<close> returns the battlefield without
  agents.
\<close>

theorem zero_agents_constructed:
  "Battlefield_init 0 rng_half = Inr (no_agents, rng_half)"
  by (simp add: Battlefield_init_def deploy_forces_def no_agents_def)

text \<open>
  Claim C6, as the code has it: the construction of a battlefield of zero agents raises nothing.
  It returns a battlefield with an empty population and the tick count 0, without a draw from the
  random source, and a tick on it returns too, the population still empty.
\<close>

theorem zero_agents_degenerate:
  "Battlefield_init 0 g = Inr (\<lparr>agents = [], time_step_count = 0\<rparr>, g)
   \<and> time_step ar t \<lparr>agents = [], time_step_count = 0\<rparr> g =
       Inr (\<lparr>agents = [], time_step_count = 1\<rparr>, g)"
  by (simp add: Battlefield_init_def deploy_forces_def time_step_def
      rebalance_strategic_equilibrium_def)

section \<open>Detection\<close>


lemma agents_loop_prefix:
  assumes "agents_loop ar t done rest g = Inr (mid, g1)"
  shows "take (length done) mid = done"
proof -
  from agents_loop_turns [OF assms] obtain new where "mid = done @ new"
    by auto
  then show ?thesis by simp
qed


















section \<open>Directions of length zero\<close>







section \<open>The battlefield as constructed\<close>

text \<open>
  Construction: one agent takes three unit draws (power, then the two coordinates).
\<close>

lemma StrategicAgent_init_explicit:
  "StrategicAgent_init strategy i g =
     (\<lparr>agent_id = i, agent_power = 0.5 + (1.5 - 0.5) * floats g 0,
       position = vscale (floats g (Suc 0), floats g (Suc (Suc 0))) 10,
       strategy_type = strategy, status = ''maneuver'', vector = zeros2\<rparr>,
      g\<lparr>floats := (\<lambda>n. floats g (Suc (Suc (Suc n))))\<rparr>)"
  by (simp add: StrategicAgent_init_def uniform_def rand2_def random_sample_def)

lemma unit_draws_choice: "unit_draws g \<Longrightarrow> unit_draws (snd (choice xs g))"
  by (simp add: unit_draws_def choice_def)

lemma StrategicAgent_init_fresh:
  assumes "unit_draws g" and "StrategicAgent_init strategy i g = (a, g1)"
  shows "agent_id a = i \<and> fresh_agent a \<and> unit_draws g1"
proof -
  from assms(1) have u: "0 \<le> floats g 0" "floats g 0 \<le> 1"
    "0 \<le> floats g (Suc 0)" "floats g (Suc 0) \<le> 1"
    "0 \<le> floats g (Suc (Suc 0))" "floats g (Suc (Suc 0)) \<le> 1"
    by (simp_all add: unit_draws_def)
  from assms(2) have a: "a = \<lparr>agent_id = i, agent_power = 0.5 + (1.5 - 0.5) * floats g 0,
       position = vscale (floats g (Suc 0), floats g (Suc (Suc 0))) 10,
       strategy_type = strategy, status = ''maneuver'', vector = zeros2\<rparr>"
    and g1: "g1 = g\<lparr>floats := (\<lambda>n. floats g (Suc (Suc (Suc n))))\<rparr>"
    by (simp_all add: StrategicAgent_init_explicit)
  from assms(1) have "unit_draws g1"
    by (simp add: unit_draws_def g1)
  moreover from u have "fresh_agent a"
    by (simp add: a fresh_agent_def in_arena_def vscale_def)
  ultimately show ?thesis by (simp add: a)
qed

lemma deploy_loop_fresh:
  "unit_draws g \<Longrightarrow> deploy_loop is acc g = (ags, g1) \<Longrightarrow>
     \<exists>new. ags = acc @ new \<and> map agent_id new = is \<and> list_all fresh_agent new"
proof (induction "is" arbitrary: acc g)
  case Nil
  then show ?case by simp
next
  case (Cons i "is")
  obtain a h where init:
    "StrategicAgent_init (fst (choice [''active'', ''passive''] g)) i
        (snd (choice [''active'', ''passive''] g)) = (a, h)"
    by (cases "StrategicAgent_init (fst (choice [''active'', ''passive''] g)) i
        (snd (choice [''active'', ''passive''] g))")
  have tail: "deploy_loop is (acc @ [a]) h = (ags, g1)"
    using Cons.prems(2) init by (simp add: case_prod_beta Let_def)
  have "unit_draws (snd (choice [''active'', ''passive''] g))"
    using Cons.prems(1) by (rule unit_draws_choice)
  then have "agent_id a = i \<and> fresh_agent a \<and> unit_draws h"
    using init by (rule StrategicAgent_init_fresh)
  then have a: "agent_id a = i" "fresh_agent a" and h: "unit_draws h"
    by blast+
  from Cons.IH [OF h tail] obtain new where
    new: "ags = (acc @ [a]) @ new" "map agent_id new = is" "list_all fresh_agent new"
    by blast
  have "ags = acc @ (a # new) \<and> map agent_id (a # new) = i # is
     \<and> list_all fresh_agent (a # new)"
    using a new by simp
  then show ?case by (rule exI [of _ "a # new"])
qed

text \<open>
  Claim C10. With unit draws in \<open>[0, 1]\<close>, as numpy's generator hands them out, the
  constructor returns for every \<open>num_agents = n\<close> a battlefield that satisfies the invariants
  of a tick before the first tick: the ids are \<open>0, \<dots>, n - 1\<close> in order, hence pairwise
  distinct, there are \<open>n\<close> agents (none for \<open>n \<le> 0\<close>), every power lies in
  \<open>[0.5, 1.5]\<close> and so is at least 0.1, every position lies in the arena, every stance is
  maneuver, every vector is zero, and the tick count is 0.
\<close>

theorem initial_state_invariants:
  assumes "\<forall>i. 0 \<le> floats g i \<and> floats g i \<le> 1"
  shows "\<exists>bf g1. Battlefield_init n g = Inr (bf, g1)
     \<and> map agent_id (agents bf) = [0..n - 1]
     \<and> distinct (map agent_id (agents bf))
     \<and> length (agents bf) = nat n
     \<and> (\<forall>a\<in>set (agents bf). 0.5 \<le> agent_power a \<and> agent_power a \<le> 1.5
            \<and> 0.1 \<le> agent_power a \<and> in_arena (position a)
            \<and> status a = ''maneuver'' \<and> vector a = zeros2)
     \<and> time_step_count bf = 0"
proof -
  obtain ags g1 where d: "deploy_loop [0..n - 1] [] g = (ags, g1)"
    by (cases "deploy_loop [0..n - 1] [] g")
  from assms have "unit_draws g"
    by (simp add: unit_draws_def)
  from deploy_loop_fresh [OF this d] have
    ids: "map agent_id ags = [0..n - 1]" and fresh: "list_all fresh_agent ags"
    by simp_all
  from ids have dist: "distinct (map agent_id ags)"
    by simp
  from ids have "length (map agent_id ags) = length [0..n - 1]"
    by simp
  then have len: "length ags = nat n"
    by simp
  from fresh have each: "\<forall>a\<in>set ags. 0.5 \<le> agent_power a \<and> agent_power a \<le> 1.5
            \<and> 0.1 \<le> agent_power a \<and> in_arena (position a)
            \<and> status a = ''maneuver'' \<and> vector a = zeros2"
    by (auto simp add: list_all_iff fresh_agent_def)
  have "Battlefield_init n g = Inr (\<lparr>agents = ags, time_step_count = 0\<rparr>, g1)"
    by (simp add: Battlefield_init_def deploy_forces_def d)
  with ids dist len each show ?thesis by simp
qed

theorem initial_state_invariants_witness:
  "(\<forall>i. 0 \<le> floats rng_half i \<and> floats rng_half i \<le> 1)
   \<and> (\<exists>bf g1. Battlefield_init 2 rng_half = Inr (bf, g1)
        \<and> map agent_id (agents bf) = [0, 1]
        \<and> list_all (\<lambda>a. 0.5 \<le> agent_power a \<and> agent_power a \<le> 1.5
              \<and> in_arena (position a) \<and> status a = ''maneuver'' \<and> vector a = zeros2)
            (agents bf))"
proof -
  have u: "\<forall>i. 0 \<le> floats rng_half i \<and> floats rng_half i \<le> 1"
    by (simp add: rng_half_def)
  have r: "[0..2 - 1] = [0, 1 :: int]"
    by (simp add: upto_rec1)
  from initial_state_invariants [OF u, of 2] obtain bf g1 where
    "Battlefield_init 2 rng_half = Inr (bf, g1)"
    "map agent_id (agents bf) = [0..2 - 1]"
    "\<forall>a\<in>set (agents bf). 0.5 \<le> agent_power a \<and> agent_power a \<le> 1.5
            \<and> 0.1 \<le> agent_power a \<and> in_arena (position a)
            \<and> status a = ''maneuver'' \<and> vector a = zeros2"
    by blast
  with r have "Battlefield_init 2 rng_half = Inr (bf, g1)
        \<and> map agent_id (agents bf) = [0, 1]
        \<and> list_all (\<lambda>a. 0.5 \<le> agent_power a \<and> agent_power a \<le> 1.5
              \<and> in_arena (position a) \<and> status a = ''maneuver'' \<and> vector a = zeros2)
            (agents bf)"
    by (simp add: list_all_iff)
  then have "\<exists>bf g1. Battlefield_init 2 rng_half = Inr (bf, g1)
        \<and> map agent_id (agents bf) = [0, 1]
        \<and> list_all (\<lambda>a. 0.5 \<le> agent_power a \<and> agent_power a \<le> 1.5
              \<and> in_arena (position a) \<and> status a = ''maneuver'' \<and> vector a = zeros2)
            (agents bf)"
    by (intro exI)
  with u show ?thesis by (rule conjI)
qed

section \<open>The draws a run consumes\<close>

text \<open>
  Two random sources that agree on the draws a computation consumes lead it to the same result,
  and what they have left agrees on as many draws less. A pair drawn by \<open>uniform\<close> consumes
  two draws, a policy at most four, the turn of one agent at most six.
\<close>

lemma agree_mono: "agree k g1 g2 \<Longrightarrow> j \<le> k \<Longrightarrow> agree j g1 g2"
  by (simp add: agree_def)

lemma same_outcome_Inr:
  "same_outcome k (Inr (x1, h1)) (Inr (x2, h2)) \<longleftrightarrow> x1 = x2 \<and> agree k h1 h2"
  by (simp add: same_outcome_def)

lemma same_outcome_Inl: "same_outcome k (Inl e) r \<longleftrightarrow> r = Inl e"
  by (simp add: same_outcome_def)

lemma uniform2_agree:
  assumes "agree (k + 2) g1 g2"
  shows "fst (uniform2 lo hi g1) = fst (uniform2 lo hi g2)
     \<and> agree k (snd (uniform2 lo hi g1)) (snd (uniform2 lo hi g2))"
proof -
  from assms have "floats g1 0 = floats g2 0" "floats g1 1 = floats g2 1"
    by (simp_all add: agree_def)
  moreover from assms have "\<forall>i<k. floats g1 (Suc (Suc i)) = floats g2 (Suc (Suc i))"
    by (simp add: agree_def)
  ultimately show ?thesis
    by (simp add: uniform2_explicit agree_def)
qed

lemma generate_defensive_pattern_explicit:
  "generate_defensive_pattern g =
     Inr (vadd (fst (fst (uniform2 (- 1) 1 g))
                  / (if linalg_norm (fst (uniform2 (- 1) 1 g)) = 0 then 1
                     else linalg_norm (fst (uniform2 (- 1) 1 g))),
                snd (fst (uniform2 (- 1) 1 g))
                  / (if linalg_norm (fst (uniform2 (- 1) 1 g)) = 0 then 1
                     else linalg_norm (fst (uniform2 (- 1) 1 g))))
               (fst (uniform2 (- chaos_factor / 2) (chaos_factor / 2) (snd (uniform2 (- 1) 1 g)))),
          snd (uniform2 (- chaos_factor / 2) (chaos_factor / 2) (snd (uniform2 (- 1) 1 g))))"
  by (simp add: generate_defensive_pattern_def case_prod_beta Let_def vdiv_def)

lemma generate_defensive_pattern_agree:
  assumes "agree (k + 4) g1 g2"
  shows "same_outcome k (generate_defensive_pattern g1) (generate_defensive_pattern g2)"
proof -
  from assms have "agree ((k + 2) + 2) g1 g2"
    by (rule agree_mono) simp
  from uniform2_agree [OF this, of "- 1" 1] have
    d: "fst (uniform2 (- 1) 1 g1) = fst (uniform2 (- 1) 1 g2)" and
    r: "agree (k + 2) (snd (uniform2 (- 1) 1 g1)) (snd (uniform2 (- 1) 1 g2))"
    by simp_all
  from uniform2_agree [OF r, of "- chaos_factor / 2" "chaos_factor / 2"] d show ?thesis
    unfolding generate_defensive_pattern_explicit same_outcome_Inr by simp
qed

lemma policy_tail_agree:
  assumes "agree (k + 2) g1 g2"
  shows "same_outcome k
     (let norm0 = linalg_norm direction;
          norm1 = (if norm0 = 0 then 1 else norm0);
          (random_jitter, h) = uniform2 (- chaos_factor) chaos_factor g1
      in case vdiv direction norm1 of
           Inl e \<Rightarrow> Inl e
         | Inr d \<Rightarrow> Inr (vadd d random_jitter, h))
     (let norm0 = linalg_norm direction;
          norm1 = (if norm0 = 0 then 1 else norm0);
          (random_jitter, h) = uniform2 (- chaos_factor) chaos_factor g2
      in case vdiv direction norm1 of
           Inl e \<Rightarrow> Inl e
         | Inr d \<Rightarrow> Inr (vadd d random_jitter, h))"
  using uniform2_agree [OF assms, of "- chaos_factor" chaos_factor]
  by (simp add: case_prod_beta Let_def vdiv_def same_outcome_Inr)

lemma calculate_best_attack_vector_agree:
  assumes "agree (k + 4) g1 g2"
  shows "same_outcome k (calculate_best_attack_vector self ops g1)
           (calculate_best_attack_vector self ops g2)"
proof (cases "ops = []")
  case True
  with generate_defensive_pattern_agree [OF assms] show ?thesis
    by (simp add: calculate_best_attack_vector_def)
next
  case False
  then obtain w where w: "min_by_power ops = Inr w"
    using min_by_power_ok by blast
  from assms have "agree (k + 2) g1 g2"
    by (rule agree_mono) simp
  from policy_tail_agree [OF this, of "vsub (position w) (position self)"] False w
  show ?thesis
    by (simp add: calculate_best_attack_vector_def Let_def)
qed

lemma find_safest_escape_route_agree:
  assumes "agree (k + 4) g1 g2"
  shows "same_outcome k (find_safest_escape_route self ops g1)
           (find_safest_escape_route self ops g2)"
proof (cases "ops = []")
  case True
  with generate_defensive_pattern_agree [OF assms] show ?thesis
    by (simp add: find_safest_escape_route_def)
next
  case False
  then obtain c where c: "mean_axis0 (map position ops) = Inr c"
    using mean_axis0_ok [of "map position ops"] by auto
  from assms have "agree (k + 2) g1 g2"
    by (rule agree_mono) simp
  from policy_tail_agree [OF this, of "vsub (position self) c"] False c
  show ?thesis
    by (simp add: find_safest_escape_route_def Let_def)
qed

lemma set_decision_agree:
  assumes "same_outcome k r1 r2"
  shows "same_outcome k (set_decision a s r1) (set_decision a s r2)"
  using assms by (auto simp add: same_outcome_def set_decision_def split: sum.splits)

lemma decide_agree:
  assumes "agree (k + 4) g1 g2"
  shows "same_outcome k (decide ar t a ops g1) (decide ar t a ops g2)"
  using set_decision_agree [OF generate_defensive_pattern_agree [OF assms]]
    set_decision_agree [OF calculate_best_attack_vector_agree [OF assms]]
    set_decision_agree [OF find_safest_escape_route_agree [OF assms]]
  by (simp add: decide_def Let_def same_outcome_Inl)

lemma execute_action_agree:
  assumes "agree (k + 2) g1 g2"
  shows "fst (execute_action a v g1) = fst (execute_action a v g2)
     \<and> agree k (snd (execute_action a v g1)) (snd (execute_action a v g2))"
  using uniform2_agree [OF assms, of "- 0.05" "0.05"]
  by (simp add: execute_action_explicit)

lemma agent_turn_agree:
  assumes "agree (k + 6) g1 g2"
  shows "same_outcome k (agent_turn ar t ags a g1) (agent_turn ar t ags a g2)"
proof -
  let ?foes = "detect_in_radius ar ags a 3"
  from assms have "agree ((k + 2) + 4) g1 g2"
    by (rule agree_mono) simp
  then have d: "same_outcome (k + 2) (decide ar t a ?foes g1) (decide ar t a ?foes g2)"
    by (rule decide_agree)
  show ?thesis
  proof (cases "decide ar t a ?foes g1")
    case (Inl e)
    with d have "decide ar t a ?foes g2 = Inl e"
      by (simp add: same_outcome_Inl)
    with Inl show ?thesis
      by (simp add: agent_turn_def same_outcome_Inl)
  next
    case (Inr r1)
    obtain b h1 where r1: "r1 = (b, h1)"
      by (cases r1)
    from d Inr r1 obtain h2 where
      d2: "decide ar t a ?foes g2 = Inr (b, h2)" and h: "agree (k + 2) h1 h2"
      by (auto simp add: same_outcome_def split: sum.splits)
    from execute_action_agree [OF h, of b "vector b"] Inr r1 d2 show ?thesis
      by (simp add: agent_turn_def case_prod_beta same_outcome_Inr)
  qed
qed

lemma agents_loop_agree:
  "agree (k + 6 * length rest) g1 g2 \<Longrightarrow>
     same_outcome k (agents_loop ar t done rest g1) (agents_loop ar t done rest g2)"
proof (induction rest arbitrary: "done" g1 g2)
  case Nil
  then show ?case by (simp add: same_outcome_Inr)
next
  case (Cons a rest)
  let ?all = "done @ a # rest"
  from Cons.prems have "agree ((k + 6 * length rest) + 6) g1 g2"
    by (rule agree_mono) simp
  then have s: "same_outcome (k + 6 * length rest) (agent_turn ar t ?all a g1) (agent_turn ar t ?all a g2)"
    by (rule agent_turn_agree)
  show ?case
  proof (cases "agent_turn ar t ?all a g1")
    case (Inl e)
    with s have "agent_turn ar t ?all a g2 = Inl e"
      by (simp add: same_outcome_Inl)
    with Inl show ?thesis
      by (simp add: same_outcome_Inl)
  next
    case (Inr r1)
    obtain a1 h1 where r1: "r1 = (a1, h1)"
      by (cases r1)
    from s Inr r1 obtain h2 where
      t2: "agent_turn ar t ?all a g2 = Inr (a1, h2)" and h: "agree (k + 6 * length rest) h1 h2"
      by (auto simp add: same_outcome_def split: sum.splits)
    from Cons.IH [OF h] Inr r1 t2 show ?thesis
      by simp
  qed
qed

lemma time_step_length:
  assumes "time_step ar t bf g = Inr (bf1, g1)"
  shows "length (agents bf1) = length (agents bf)"
proof -
  from assms obtain mid where
    loop: "agents_loop ar t [] (agents bf) g = Inr (mid, g1)" and
    bf1: "bf1 = \<lparr>agents = rebalance_strategic_equilibrium ar mid,
                  time_step_count = time_step_count bf + 1\<rparr>"
    unfolding time_step_Inr by auto
  from agents_loop_nth [OF loop] show ?thesis
    by (simp add: bf1 rebalance_length)
qed

lemma time_step_agree:
  assumes "agree (k + 6 * length (agents bf)) g1 g2"
  shows "same_outcome k (time_step ar t bf g1) (time_step ar t bf g2)"
  using agents_loop_agree [OF assms, of ar t "[]"]
  by (auto simp add: time_step_def same_outcome_def split: sum.splits)

lemma run_agree:
  "agree (k + 6 * length (agents bf) * length ts) g1 g2 \<Longrightarrow>
     same_outcome k (run ar ts bf g1) (run ar ts bf g2)"
proof (induction ts arbitrary: bf g1 g2)
  case Nil
  then show ?case by (simp add: same_outcome_Inr)
next
  case (Cons t ts)
  let ?n = "length (agents bf)"
  from Cons.prems have "agree ((k + 6 * ?n * length ts) + 6 * ?n) g1 g2"
    by (rule agree_mono) (simp add: algebra_simps)
  then have s: "same_outcome (k + 6 * ?n * length ts) (time_step ar t bf g1) (time_step ar t bf g2)"
    by (rule time_step_agree)
  show ?case
  proof (cases "time_step ar t bf g1")
    case (Inl e)
    with s have "time_step ar t bf g2 = Inl e"
      by (simp add: same_outcome_Inl)
    with Inl show ?thesis
      by (simp add: same_outcome_Inl)
  next
    case (Inr r1)
    obtain bf1 h1 where r1: "r1 = (bf1, h1)"
      by (cases r1)
    from s Inr r1 obtain h2 where
      t2: "time_step ar t bf g2 = Inr (bf1, h2)" and h: "agree (k + 6 * ?n * length ts) h1 h2"
      by (auto simp add: same_outcome_def split: sum.splits)
    from Inr r1 have "length (agents bf1) = ?n"
      using time_step_length by simp
    with h have "agree (k + 6 * length (agents bf1) * length ts) h1 h2"
      by simp
    from Cons.IH [OF this] Inr r1 t2 show ?thesis
      by (auto simp add: same_outcome_def split: sum.splits)
  qed
qed

lemma same_outcome_result:
  assumes "same_outcome k r1 r2"
  shows "map_sum id fst r1 = map_sum id fst r2"
proof (cases r1)
  case (Inl e)
  with assms show ?thesis by (simp add: same_outcome_Inl)
next
  case (Inr p1)
  show ?thesis
  proof (cases r2)
    case (Inl e)
    with assms Inr show ?thesis by (simp add: same_outcome_def split: prod.splits)
  next
    case r: (Inr p2)
    with assms Inr show ?thesis by (cases p1; cases p2) (simp add: same_outcome_Inr)
  qed
qed

text \<open>
  Claim C9. Two runs over the same thresholds from the same battlefield, with random sources
  that hand out the same floats for as many draws as the run can consume (six per agent and
  tick), have the same outcome: the same error, or the same trajectory, that is the same list of
  battlefields after each tick, with every agent's position, power, stance and vector and the
  tick count. Sources that are equal are a special case.
\<close>

theorem determinism_given_draws:
  assumes "\<forall>i < 6 * length (agents bf) * length ts. floats g1 i = floats g2 i"
  shows "map_sum id fst (run ar ts bf g1) = map_sum id fst (run ar ts bf g2)"
proof -
  from assms have "agree (0 + 6 * length (agents bf) * length ts) g1 g2"
    by (simp add: agree_def)
  from run_agree [OF this] show ?thesis
    by (rule same_outcome_result)
qed

lemma run_duel: "run exact [1] duel rng_half = Inr ([duel_after], rng_half)"
  by (simp add: time_step_duel)

theorem determinism_given_draws_witness:
  "floats rng_half 12 \<noteq> floats rng_half_then_high 12
   \<and> map_sum id fst (run exact [1] duel rng_half) = Inr [duel_after]
   \<and> map_sum id fst (run exact [1] duel rng_half_then_high) = Inr [duel_after]"
proof -
  have differ: "floats rng_half 12 \<noteq> floats rng_half_then_high 12"
    by (simp add: rng_half_def rng_half_then_high_def)
  have same: "\<forall>i < 6 * length (agents duel) * length [1::real].
      floats rng_half i = floats rng_half_then_high i"
    by (simp add: duel_def rng_half_def rng_half_then_high_def)
  have one: "map_sum id fst (run exact [1] duel rng_half) = Inr [duel_after]"
    unfolding run_duel by simp
  from determinism_given_draws [OF same] one
  have "map_sum id fst (run exact [1] duel rng_half_then_high) = Inr [duel_after]"
    by simp
  with differ one show ?thesis by simp
qed

end
